theory Spec2Isabelle
  imports Main
begin

section \<open>JavaScript Map as an insertion-ordered association list\<close>

text \<open>
  The services keep their state in JavaScript \<^verbatim>\<open>Map\<close> objects. A \<^verbatim>\<open>Map\<close> iterates in
  insertion order, \<^verbatim>\<open>set\<close> on a key that is present replaces the value in place, and
  \<^verbatim>\<open>delete\<close> removes the key. The order matters for the cache: the eviction sorts
  \<^verbatim>\<open>[...entries()]\<close> with a stable sort.
\<close>

type_synonym ('k, 'v) jsmap = "('k \<times> 'v) list"

definition mapGet :: "('k, 'v) jsmap \<Rightarrow> 'k \<Rightarrow> 'v option" where
  "mapGet m k = map_of m k"

fun mapSet :: "('k, 'v) jsmap \<Rightarrow> 'k \<Rightarrow> 'v \<Rightarrow> ('k, 'v) jsmap" where
  "mapSet [] k v = [(k, v)]"
| "mapSet ((k', v') # m) k v = (if k' = k then (k, v) # m else (k', v') # mapSet m k v)"

definition mapDelete :: "('k, 'v) jsmap \<Rightarrow> 'k \<Rightarrow> ('k, 'v) jsmap" where
  "mapDelete m k = filter (\<lambda>kv. fst kv \<noteq> k) m"

definition mapSize :: "('k, 'v) jsmap \<Rightarrow> nat" where
  "mapSize m = length m"

section \<open>The completion cache of \<^verbatim>\<open>CompletionService\<close>\<close>

text \<open>
  \<^verbatim>\<open>completionCache: Map<string, { result: string; timestamp: number }>\<close>.
  Timestamps are readings of \<^verbatim>\<open>Date.now()\<close>, integral milliseconds; the reading is a
  parameter \<open>now\<close> of each operation.
\<close>

record cacheEntry =
  result :: string
  timestamp :: int

type_synonym completionCache = "(string, cacheEntry) jsmap"

definition CACHE_TTL_MS :: int where
  "CACHE_TTL_MS = 60000"

text \<open>
  \<^verbatim>\<open>getFromCache(key)\<close>: the entry is an object, so \<^verbatim>\<open>cached && ...\<close> tests presence only.
  Returns the value read and the store after the call.
\<close>

definition getFromCache :: "completionCache \<Rightarrow> string \<Rightarrow> int \<Rightarrow> string option \<times> completionCache" where
  "getFromCache cache key now =
     (case mapGet cache key of
        Some cached \<Rightarrow>
          if now - timestamp cached < CACHE_TTL_MS then (Some (result cached), cache)
          else (None, mapDelete cache key)
      | None \<Rightarrow> (None, cache))"

text \<open>
  \<^verbatim>\<open>addToCache(key, result)\<close>: \<^verbatim>\<open>Array.prototype.sort\<close> is stable and the comparator
  \<^verbatim>\<open>a[1].timestamp - b[1].timestamp\<close> orders by ascending timestamp; \<open>sort_key\<close> is the
  stable insertion sort.
\<close>

definition keysToDelete :: "completionCache \<Rightarrow> string list" where
  "keysToDelete cache = map fst (take 20 (sort_key (\<lambda>kv. timestamp (snd kv)) cache))"

definition addToCache :: "completionCache \<Rightarrow> string \<Rightarrow> string \<Rightarrow> int \<Rightarrow> completionCache" where
  "addToCache cache key res now =
     (let cache1 = mapSet cache key \<lparr>result = res, timestamp = now\<rparr>
      in if mapSize cache1 > 100 then foldl mapDelete cache1 (keysToDelete cache1)
         else cache1)"

text \<open>The stores the service can be in: empty at construction, then changed by the two operations.\<close>

inductive cache_reachable :: "completionCache \<Rightarrow> bool" where
  cache_init: "cache_reachable []"
| cache_put: "cache_reachable c \<Longrightarrow> cache_reachable (addToCache c key res now)"
| cache_get: "cache_reachable c \<Longrightarrow> cache_reachable (snd (getFromCache c key now))"

section \<open>Text documents and the completion request\<close>

text \<open>
  A JavaScript string is the list of its code units, so \<^verbatim>\<open>substring(0, n)\<close> is \<open>take n\<close>,
  \<^verbatim>\<open>substring(n)\<close> is \<open>drop n\<close> and \<^verbatim>\<open>length\<close> is \<open>length\<close>. A JavaScript \<^verbatim>\<open>Error\<close> is a value
  carrying its message; a statement that throws is modelled by the left injection of a sum.
\<close>

datatype exn = Error string

record TextDocument =
  fileName :: string
  languageId :: string
  lines :: "string list"

record Position =
  line :: nat
  character :: nat

text \<open>\<^verbatim>\<open>document.lineAt(i).text\<close>; the editor throws for a line outside the document.\<close>

definition lineAt :: "TextDocument \<Rightarrow> nat \<Rightarrow> exn + string" where
  "lineAt doc i = (if i < length (lines doc) then Inr (lines doc ! i)
                   else Inl (Error ''Illegal value for line''))"

definition newline :: string where
  "newline = [CHR 0x0A]"

record Settings =
  autoCompleteEnabled :: bool
  configuredModel :: string
  linesToContextBefore :: nat
  linesToContextAfter :: nat
  maxTokensSetting :: int
  temperatureSetting :: int

text \<open>
  \<^verbatim>\<open>CompletionRequest\<close> (\<^verbatim>\<open>CompletionParams\<close> of the type declarations). \<open>maxTokens\<close> and
  \<open>temperature\<close> are copied from the settings unchanged; they are carried as opaque numbers.
\<close>

record CompletionRequest =
  prompt :: string
  model :: string
  maxTokens :: int
  temperature :: int
  stop :: "string list"

text \<open>
  The first loop of \<^verbatim>\<open>buildCompletionRequest\<close>:
  \<^verbatim>\<open>for (i = startLine; i < position.line; i++) promptText += lineAt(i).text + '\n'\<close>,
  run over the list of its indices.
\<close>

fun appendLines :: "TextDocument \<Rightarrow> nat list \<Rightarrow> string \<Rightarrow> exn + string" where
  "appendLines doc [] promptText = Inr promptText"
| "appendLines doc (i # rest) promptText =
     (case lineAt doc i of
        Inl e \<Rightarrow> Inl e
      | Inr t \<Rightarrow> appendLines doc rest (promptText @ t @ newline))"

text \<open>
  The second loop, \<^verbatim>\<open>for (i = position.line; i <= endLine; i++)\<close>, which builds the local
  variable \<^verbatim>\<open>contextAfter\<close>: the current line from the cursor column on, the later lines whole.
\<close>

fun appendLinesAfter :: "TextDocument \<Rightarrow> Position \<Rightarrow> nat list \<Rightarrow> string \<Rightarrow> exn + string" where
  "appendLinesAfter doc position [] contextAfter = Inr contextAfter"
| "appendLinesAfter doc position (i # rest) contextAfter =
     (case lineAt doc i of
        Inl e \<Rightarrow> Inl e
      | Inr t \<Rightarrow>
          appendLinesAfter doc position rest
            (contextAfter @ (if i = line position then drop (character position) t else t) @ newline))"

definition startLineOf :: "Settings \<Rightarrow> Position \<Rightarrow> nat" where
  "startLineOf settings position =
     nat (max 0 (int (line position) - int (linesToContextBefore settings)))"

definition endLineOf :: "Settings \<Rightarrow> TextDocument \<Rightarrow> Position \<Rightarrow> int" where
  "endLineOf settings doc position =
     min (int (length (lines doc)) - 1) (int (line position) + int (linesToContextAfter settings))"

definition contextAfterOf :: "Settings \<Rightarrow> TextDocument \<Rightarrow> Position \<Rightarrow> exn + string" where
  "contextAfterOf settings doc position =
     appendLinesAfter doc position [line position ..< nat (endLineOf settings doc position + 1)] []"

text \<open>
  \<^verbatim>\<open>buildCompletionRequest(document, position, linePrefix, context)\<close>. The source computes
  \<^verbatim>\<open>contextAfter\<close> and then builds the request from \<^verbatim>\<open>promptText\<close> alone; the model keeps the
  computation (it can throw) and, as the source does, does not use its value.
  \<^verbatim>\<open>if (context)\<close> holds for a defined, non-empty string.
\<close>

definition buildCompletionRequest ::
  "Settings \<Rightarrow> TextDocument \<Rightarrow> Position \<Rightarrow> string \<Rightarrow> string option \<Rightarrow> exn + CompletionRequest" where
  "buildCompletionRequest settings doc position linePrefix context =
     (case appendLines doc [startLineOf settings position ..< line position] [] of
        Inl e \<Rightarrow> Inl e
      | Inr before \<Rightarrow>
          let promptText = before @ linePrefix in
          (case contextAfterOf settings doc position of
             Inl e \<Rightarrow> Inl e
           | Inr contextAfter \<Rightarrow>
               let promptText' =
                     (case context of
                        None \<Rightarrow> promptText
                      | Some c \<Rightarrow> if c = [] then promptText else c @ newline @ newline @ promptText)
               in Inr \<lparr>prompt = promptText', model = configuredModel settings,
                        maxTokens = maxTokensSetting settings,
                        temperature = temperatureSetting settings,
                        stop = [newline @ newline, ''```'']\<rparr>))"

text \<open>\<^verbatim>\<open>getCacheKey\<close>: \<^verbatim>\<open>`${language}:${prefix}:${context.substring(0, 50)}`\<close>.\<close>

definition getCacheKey :: "string \<Rightarrow> string \<Rightarrow> string \<Rightarrow> string" where
  "getCacheKey language prefix context = language @ '':'' @ prefix @ '':'' @ take 50 context"

text \<open>
  \<^verbatim>\<open>String.prototype.trim\<close> on the ASCII white space and line terminators
  (tab, line feed, vertical tab, form feed, carriage return, space).
\<close>

definition isWhitespace :: "char \<Rightarrow> bool" where
  "isWhitespace c = (c \<in> set [CHR 0x09, CHR 0x0A, CHR 0x0B, CHR 0x0C, CHR 0x0D, CHR '' ''])"

definition trim :: "string \<Rightarrow> string" where
  "trim s = rev (dropWhile isWhitespace (rev (dropWhile isWhitespace s)))"

section \<open>The telemetry service\<close>

datatype TelemetryEventType =
    EXTENSION_ACTIVATED | EXTENSION_DEACTIVATED | COMMAND_EXECUTED | FEATURE_USED
  | CODE_GENERATED | CODE_EXPLAINED | COMMIT_GENERATED | LOGS_ADDED | CODE_COMPLETED
  | CHAT_MESSAGE_SENT | CHAT_MESSAGE_RECEIVED | ERROR_OCCURRED | MODEL_CHANGED
  | SETTINGS_CHANGED | API_REQUEST | API_RESPONSE | SUGGESTION_ACCEPTED
  | SUGGESTION_REJECTED | FEEDBACK_SUBMITTED | PERFORMANCE_METRIC

datatype AICapability =
    CODE_COMPLETION | CODE_GENERATION | CODE_EXPLANATION | COMMIT_GENERATION
  | LOG_GENERATION | CHAT | DEBUGGING | REFACTORING | TRANSLATION

text \<open>The values the services store under \<^verbatim>\<open>properties: Record<string, any>\<close>.\<close>

datatype propertyValue =
    PString string
  | PNumber int
  | PBool bool
  | PCapability AICapability
  | PPosition nat nat

record TelemetryEvent =
  ev_type :: TelemetryEventType
  ev_timestamp :: int
  ev_sessionId :: string
  ev_properties :: "(string, propertyValue) jsmap"
  ev_measurements :: "(string, int) jsmap"

text \<open>The lines the services hand to the logger, by call site.\<close>

datatype logLine =
    DebugTrackingEvent TelemetryEvent
  | DebugFlushing nat
  | ErrorFlushing
  | InfoTelemetryNow bool
  | ErrorGettingCompletion string
  | ErrorUnexpectedInCompletion exn
  | ErrorInCodeCompletion exn
  | InfoOperation AICapability
  | ErrorOperation AICapability exn

text \<open>
  The fields of \<^verbatim>\<open>TelemetryService\<close>. \<open>vscodeVersion\<close> and \<open>osName\<close> stand for the host values
  \<^verbatim>\<open>vscode.version\<close> and \<^verbatim>\<open>`${os.platform()}-${os.release()}`\<close>; \<open>telemetryLog\<close> collects the
  lines written to the logger.
\<close>

record TelemetryService =
  sessionId :: string
  machineId :: string
  isEnabled :: bool
  extensionVersion :: string
  pendingEvents :: "TelemetryEvent list"
  vscodeVersion :: string
  osName :: string
  telemetryLog :: "logLine list"

definition EVENTS_BATCH_SIZE :: nat where
  "EVENTS_BATCH_SIZE = 20"

text \<open>
  The constructor: \<^verbatim>\<open>sessionId\<close> and \<^verbatim>\<open>machineId\<close> are two fresh \<^verbatim>\<open>uuidv4()\<close> values, \<open>enabled\<close> is
  \<^verbatim>\<open>configManager.isTelemetryEnabled()\<close>. No other statement of the class assigns \<^verbatim>\<open>sessionId\<close>.
\<close>

definition newTelemetryService :: "string \<Rightarrow> string \<Rightarrow> bool \<Rightarrow> string \<Rightarrow> string \<Rightarrow> TelemetryService" where
  "newTelemetryService uuid1 uuid2 enabled vsVersion os =
     \<lparr>sessionId = uuid1, machineId = uuid2, isEnabled = enabled, extensionVersion = ''0.1.0'',
      pendingEvents = [], vscodeVersion = vsVersion, osName = os, telemetryLog = []\<rparr>"

text \<open>
  \<^verbatim>\<open>flush()\<close>. The call that would deliver the batch is commented out in the source; the try block
  takes the snapshot, clears the buffer and writes one debug line. \<open>throws\<close> says whether the
  block throws after the buffer is cleared (the delivery failing); the catch block then logs the
  error and executes \<^verbatim>\<open>this.pendingEvents = [...this.pendingEvents]\<close>. The snapshot
  \<^verbatim>\<open>eventsToSend\<close> is local to the try block.
\<close>

definition flush :: "bool \<Rightarrow> TelemetryService \<Rightarrow> TelemetryService" where
  "flush throws s =
     (if \<not> isEnabled s \<or> length (pendingEvents s) = 0 then s
      else
        let eventsToSend = pendingEvents s;
            s1 = s\<lparr>pendingEvents := []\<rparr>
        in if throws then
             let s2 = s1\<lparr>telemetryLog := telemetryLog s1 @ [ErrorFlushing]\<rparr>
             in s2\<lparr>pendingEvents := pendingEvents s2\<rparr>
           else s1\<lparr>telemetryLog := telemetryLog s1 @ [DebugFlushing (length eventsToSend)]\<rparr>)"

text \<open>
  The enrichment of \<^verbatim>\<open>trackEvent\<close>: \<^verbatim>\<open>event.timestamp || Date.now()\<close> replaces a zero timestamp;
  the object spread keeps the caller's properties and sets three more.
\<close>

definition enrichEvent :: "TelemetryService \<Rightarrow> int \<Rightarrow> TelemetryEvent \<Rightarrow> TelemetryEvent" where
  "enrichEvent s now event =
     event\<lparr>ev_timestamp := (if ev_timestamp event = 0 then now else ev_timestamp event),
           ev_sessionId := sessionId s,
           ev_properties :=
             mapSet (mapSet (mapSet (ev_properties event)
               ''extensionVersion'' (PString (extensionVersion s)))
               ''vscodeVersion'' (PString (vscodeVersion s)))
               ''os'' (PString (osName s))\<rparr>"

text \<open>
  \<^verbatim>\<open>trackEvent(event)\<close>. \<^verbatim>\<open>flush\<close> contains no \<^verbatim>\<open>await\<close>, so the call \<^verbatim>\<open>this.flush()\<close> runs the
  whole body of \<^verbatim>\<open>flush\<close> before \<^verbatim>\<open>trackEvent\<close> returns.
\<close>

definition trackEvent :: "bool \<Rightarrow> int \<Rightarrow> TelemetryEvent \<Rightarrow> TelemetryService \<Rightarrow> TelemetryService" where
  "trackEvent throws now event s =
     (if \<not> isEnabled s then s
      else
        let enrichedEvent = enrichEvent s now event;
            s1 = s\<lparr>telemetryLog := telemetryLog s @ [DebugTrackingEvent enrichedEvent],
                   pendingEvents := pendingEvents s @ [enrichedEvent]\<rparr>
        in if length (pendingEvents s1) \<ge> EVENTS_BATCH_SIZE then flush throws s1 else s1)"

definition enable :: "TelemetryService \<Rightarrow> TelemetryService" where
  "enable s = s\<lparr>isEnabled := True\<rparr>"

definition disable :: "TelemetryService \<Rightarrow> TelemetryService" where
  "disable s = s\<lparr>isEnabled := False\<rparr>"

text \<open>The configuration listener registered by the constructor.\<close>

definition onDidChangeTelemetryConfiguration :: "bool \<Rightarrow> TelemetryService \<Rightarrow> TelemetryService" where
  "onDidChangeTelemetryConfiguration configured s =
     s\<lparr>isEnabled := configured, telemetryLog := telemetryLog s @ [InfoTelemetryNow configured]\<rparr>"

text \<open>
  Every way the service is driven: the other \<^verbatim>\<open>track...\<close> methods build an event and call
  \<^verbatim>\<open>trackEvent\<close>; the timer, \<^verbatim>\<open>dispose\<close> and deactivation call \<^verbatim>\<open>flush\<close>.
\<close>

datatype telemetryCall =
    CallTrackEvent bool int TelemetryEvent
  | CallFlush bool
  | CallEnable
  | CallDisable
  | CallConfigurationChanged bool

fun telemetryStep :: "TelemetryService \<Rightarrow> telemetryCall \<Rightarrow> TelemetryService" where
  "telemetryStep s (CallTrackEvent throws now event) = trackEvent throws now event s"
| "telemetryStep s (CallFlush throws) = flush throws s"
| "telemetryStep s CallEnable = enable s"
| "telemetryStep s CallDisable = disable s"
| "telemetryStep s (CallConfigurationChanged configured) = onDidChangeTelemetryConfiguration configured s"

definition telemetryRun :: "TelemetryService \<Rightarrow> telemetryCall list \<Rightarrow> TelemetryService" where
  "telemetryRun s calls = foldl telemetryStep s calls"

text \<open>
  Every event \<^verbatim>\<open>trackEvent\<close> appends to the buffer is also written to the debug log; the events of
  those lines are all the events ever appended, flushed or not.
\<close>

fun trackedEvent :: "logLine \<Rightarrow> TelemetryEvent list" where
  "trackedEvent (DebugTrackingEvent e) = [e]"
| "trackedEvent l = []"

definition trackedEvents :: "TelemetryService \<Rightarrow> TelemetryEvent list" where
  "trackedEvents s = concat (map trackedEvent (telemetryLog s))"

text \<open>The parameter \<open>throws\<close> of a call, for talking about runs in which every delivery succeeds.\<close>

fun callThrows :: "telemetryCall \<Rightarrow> bool" where
  "callThrows (CallTrackEvent throws now event) = throws"
| "callThrows (CallFlush throws) = throws"
| "callThrows CallEnable = False"
| "callThrows CallDisable = False"
| "callThrows (CallConfigurationChanged configured) = False"

section \<open>The completion service and the agent service\<close>

text \<open>\<^verbatim>\<open>Result<T, E>\<close> of the common type declarations: \<^verbatim>\<open>Success<T> | Failure<E>\<close>.\<close>

datatype ('a, 'e) Result = Success 'a | Failure 'e

record ApiErrorResponse =
  err_status :: int
  err_code :: string
  err_message :: string

record CompletionResponse =
  resp_text :: string
  resp_tokens :: int

text \<open>
  What an awaited method of \<^verbatim>\<open>ApiClient\<close> gives back: a successful result, an unsuccessful
  result, or a thrown exception.
\<close>

datatype 'a apiOutcome = ApiSuccess 'a | ApiFailure ApiErrorResponse | ApiThrows exn

text \<open>The outbound calls, in the order they are issued.\<close>

datatype apiRequest =
    CompletionCall CompletionRequest
  | OperationCall AICapability string

record sessionRecord =
  startTime :: int
  capability :: AICapability

text \<open>
  The singletons the two services share: the configuration, the telemetry service, the cache of the
  completion service, the session id of the API client, the calls made through the API client,
  the sessions and selected model of the agent service, and the lines the two services log.
\<close>

record System =
  settings :: Settings
  telemetry :: TelemetryService
  cache :: completionCache
  apiSessionId :: string
  apiRequests :: "apiRequest list"
  activeSessions :: "(string, sessionRecord) jsmap"
  selectedModel :: string
  serviceLog :: "logLine list"

text \<open>
  What one call reads from its host: \<open>now0\<close> is \<^verbatim>\<open>Date.now()\<close> before the call suspends at its
  \<^verbatim>\<open>await\<close>, \<open>now1\<close> is \<^verbatim>\<open>Date.now()\<close> after it resumes; \<open>newSessionId\<close> is the string
  \<^verbatim>\<open>`${capability}-${Date.now()}-${random}`\<close> that \<^verbatim>\<open>startSession\<close> builds; \<open>flushThrows\<close> is the
  parameter of \<open>flush\<close>.
\<close>

record Host =
  now0 :: int
  now1 :: int
  newSessionId :: string
  flushThrows :: bool

text \<open>An effectful call returns a value or a thrown exception, together with the state it left.\<close>

type_synonym 'a effect = "(exn + 'a) \<times> System"

definition tryCatch :: "'a effect \<Rightarrow> (exn \<Rightarrow> System \<Rightarrow> 'a effect) \<Rightarrow> 'a effect" where
  "tryCatch body handler =
     (case body of
        (Inl e, s) \<Rightarrow> handler e s
      | (Inr v, s) \<Rightarrow> (Inr v, s))"

definition trackCompletionEvent ::
  "bool \<Rightarrow> int \<Rightarrow> string \<Rightarrow> nat \<Rightarrow> nat \<Rightarrow> Position \<Rightarrow> int \<Rightarrow> bool \<Rightarrow> bool \<Rightarrow> int \<Rightarrow> System \<Rightarrow> System" where
  "trackCompletionEvent throws now language promptLength completionLength position duration
       success fromCache tokensUsed s =
     s\<lparr>telemetry :=
         trackEvent throws now
           \<lparr>ev_type = CODE_COMPLETED, ev_timestamp = now, ev_sessionId = apiSessionId s,
            ev_properties =
              [(''language'', PString language),
               (''promptLength'', PNumber (int promptLength)),
               (''completionLength'', PNumber (int completionLength)),
               (''position'', PPosition (line position) (character position)),
               (''success'', PBool success),
               (''fromCache'', PBool fromCache),
               (''modelId'', PString (configuredModel (settings s)))],
            ev_measurements =
              [(''duration'', duration),
               (''promptLength'', int promptLength),
               (''completionLength'', int completionLength),
               (''tokensUsed'', tokensUsed)]\<rparr>
           (telemetry s)\<rparr>"

text \<open>\<^verbatim>\<open>getCompletion\<close> from the cache miss on: build the request, await the API, handle the response.\<close>

definition getCompletionMiss ::
  "Host \<Rightarrow> CompletionResponse apiOutcome \<Rightarrow> TextDocument \<Rightarrow> Position \<Rightarrow> string \<Rightarrow>
   string option \<Rightarrow> string \<Rightarrow> System \<Rightarrow> (string option) effect" where
  "getCompletionMiss host response doc position linePrefix context cacheKey s =
     (case buildCompletionRequest (settings s) doc position linePrefix context of
        Inl e \<Rightarrow> (Inl e, s)
      | Inr request \<Rightarrow>
          let s1 = s\<lparr>apiRequests := apiRequests s @ [CompletionCall request]\<rparr> in
          (case response of
             ApiThrows e \<Rightarrow> (Inl e, s1)
           | ApiFailure err \<Rightarrow>
               (Inr None, s1\<lparr>serviceLog := serviceLog s1 @ [ErrorGettingCompletion (err_message err)]\<rparr>)
           | ApiSuccess v \<Rightarrow>
               let completionText = resp_text v;
                   s2 = s1\<lparr>cache := addToCache (cache s1) cacheKey completionText (now1 host)\<rparr>;
                   s3 = trackCompletionEvent (flushThrows host) (now1 host) (languageId doc)
                          (length linePrefix) (length completionText) position
                          (now1 host - now0 host) True False (resp_tokens v) s2
               in (Inr (Some completionText), s3)))"

text \<open>
  The try block of \<^verbatim>\<open>getCompletion\<close>. \<^verbatim>\<open>!linePrefix.trim()\<close> holds when the trimmed prefix is the
  empty string, \<^verbatim>\<open>context || ''\<close> is the context or the empty string, and \<^verbatim>\<open>if (cached)\<close> holds for
  a cached string that is not empty.
\<close>

definition getCompletionTry ::
  "Host \<Rightarrow> CompletionResponse apiOutcome \<Rightarrow> TextDocument \<Rightarrow> Position \<Rightarrow> string option \<Rightarrow>
   System \<Rightarrow> (string option) effect" where
  "getCompletionTry host response doc position context s =
     (let startTime = now0 host in
      if \<not> autoCompleteEnabled (settings s) then (Inr None, s)
      else
        case lineAt doc (line position) of
          Inl e \<Rightarrow> (Inl e, s)
        | Inr lineText \<Rightarrow>
            let linePrefix = take (character position) lineText in
            if trim linePrefix = [] then (Inr None, s)
            else
              let cacheKey = getCacheKey (languageId doc) linePrefix
                               (case context of None \<Rightarrow> [] | Some c \<Rightarrow> c);
                  got = getFromCache (cache s) cacheKey (now0 host);
                  s1 = s\<lparr>cache := snd got\<rparr>
              in case fst got of
                   None \<Rightarrow> getCompletionMiss host response doc position linePrefix context cacheKey s1
                 | Some cached \<Rightarrow>
                     if cached = [] then
                       getCompletionMiss host response doc position linePrefix context cacheKey s1
                     else
                       (Inr (Some cached),
                        trackCompletionEvent (flushThrows host) (now0 host) (languageId doc)
                          (length linePrefix) (length cached) position
                          (now0 host - startTime) True True 0 s1))"

definition getCompletion ::
  "Host \<Rightarrow> CompletionResponse apiOutcome \<Rightarrow> TextDocument \<Rightarrow> Position \<Rightarrow> string option \<Rightarrow>
   System \<Rightarrow> (string option) effect" where
  "getCompletion host response doc position context s =
     tryCatch (getCompletionTry host response doc position context s)
       (\<lambda>e s'. (Inr None, s'\<lparr>serviceLog := serviceLog s' @ [ErrorUnexpectedInCompletion e]\<rparr>))"

definition startSession :: "AICapability \<Rightarrow> Host \<Rightarrow> System \<Rightarrow> System" where
  "startSession cap host s =
     s\<lparr>activeSessions :=
         mapSet (activeSessions s) (newSessionId host) \<lparr>startTime = now0 host, capability = cap\<rparr>\<rparr>"

definition endSession :: "Host \<Rightarrow> string \<Rightarrow> AICapability \<Rightarrow> bool \<Rightarrow> System \<Rightarrow> System" where
  "endSession host sid cap success s =
     (case mapGet (activeSessions s) sid of
        None \<Rightarrow> s
      | Some session \<Rightarrow>
          let duration = now1 host - startTime session;
              s1 = s\<lparr>telemetry :=
                       trackEvent (flushThrows host) (now1 host)
                         \<lparr>ev_type = FEATURE_USED, ev_timestamp = now1 host,
                          ev_sessionId = apiSessionId s,
                          ev_properties =
                            [(''feature'', PCapability cap),
                             (''modelId'', PString (selectedModel s)),
                             (''success'', PBool success)],
                          ev_measurements = [(''duration'', duration)]\<rparr>
                         (telemetry s)\<rparr>
          in s1\<lparr>activeSessions := mapDelete (activeSessions s1) sid\<rparr>)"

text \<open>\<^verbatim>\<open>AgentService.getCodeCompletion\<close>, the entry point of the inline completion provider.\<close>

definition getCodeCompletion ::
  "Host \<Rightarrow> CompletionResponse apiOutcome \<Rightarrow> TextDocument \<Rightarrow> Position \<Rightarrow> string option \<Rightarrow>
   System \<Rightarrow> (string option) effect" where
  "getCodeCompletion host response doc position context s =
     (let sid = newSessionId host;
          s0 = startSession CODE_COMPLETION host s
      in tryCatch
           (case getCompletion host response doc position context s0 of
              (Inl e, s1) \<Rightarrow> (Inl e, s1)
            | (Inr res, s1) \<Rightarrow> (Inr res, endSession host sid CODE_COMPLETION True s1))
           (\<lambda>e s1. (Inr None,
                     endSession host sid CODE_COMPLETION False
                       (s1\<lparr>serviceLog := serviceLog s1 @ [ErrorInCodeCompletion e]\<rparr>))))"

text \<open>
  The five one-shot methods of \<^verbatim>\<open>AgentService\<close> have one body; they differ in the capability, in
  the prefix of the failure message, in the model sent and in the field read from the response
  (the \<open>string\<close> of the outcome is that field).
\<close>

definition oneShotOperation ::
  "AICapability \<Rightarrow> string \<Rightarrow> string \<Rightarrow> Host \<Rightarrow> string apiOutcome \<Rightarrow> System \<Rightarrow>
   ((string, exn) Result) effect" where
  "oneShotOperation cap failurePrefix requestModel host response s =
     (let sid = newSessionId host;
          s0 = startSession cap host s
      in tryCatch
           (let s1 = s0\<lparr>serviceLog := serviceLog s0 @ [InfoOperation cap]\<rparr>;
                s2 = s1\<lparr>apiRequests := apiRequests s1 @ [OperationCall cap requestModel]\<rparr>
            in case response of
                 ApiThrows e \<Rightarrow> (Inl e, s2)
               | ApiFailure err \<Rightarrow>
                   (Inr (Failure (Error (failurePrefix @ err_message err))),
                    endSession host sid cap False s2)
               | ApiSuccess v \<Rightarrow> (Inr (Success v), endSession host sid cap True s2))
           (\<lambda>e s1. (Inr (Failure e),
                     endSession host sid cap False
                       (s1\<lparr>serviceLog := serviceLog s1 @ [ErrorOperation cap e]\<rparr>))))"

text \<open>\<^verbatim>\<open>params.modelId || this.selectedModel\<close>.\<close>

definition modelIdOr :: "string option \<Rightarrow> System \<Rightarrow> string" where
  "modelIdOr modelId s =
     (case modelId of None \<Rightarrow> selectedModel s | Some m \<Rightarrow> if m = [] then selectedModel s else m)"

definition generateCode ::
  "string option \<Rightarrow> Host \<Rightarrow> string apiOutcome \<Rightarrow> System \<Rightarrow> ((string, exn) Result) effect" where
  "generateCode modelId host response s =
     oneShotOperation CODE_GENERATION ''Failed to generate code: '' (modelIdOr modelId s) host response s"

definition explainCode ::
  "string option \<Rightarrow> Host \<Rightarrow> string apiOutcome \<Rightarrow> System \<Rightarrow> ((string, exn) Result) effect" where
  "explainCode modelId host response s =
     oneShotOperation CODE_EXPLANATION ''Failed to explain code: '' (modelIdOr modelId s) host response s"

definition generateCommitMessage ::
  "string option \<Rightarrow> Host \<Rightarrow> string apiOutcome \<Rightarrow> System \<Rightarrow> ((string, exn) Result) effect" where
  "generateCommitMessage modelId host response s =
     oneShotOperation COMMIT_GENERATION ''Failed to generate commit message: '' (modelIdOr modelId s)
       host response s"

definition addLogging ::
  "string option \<Rightarrow> Host \<Rightarrow> string apiOutcome \<Rightarrow> System \<Rightarrow> ((string, exn) Result) effect" where
  "addLogging modelId host response s =
     oneShotOperation LOG_GENERATION ''Failed to add logging: '' (modelIdOr modelId s) host response s"

definition chat :: "Host \<Rightarrow> string apiOutcome \<Rightarrow> System \<Rightarrow> ((string, exn) Result) effect" where
  "chat host response s =
     oneShotOperation CHAT ''Failed to get chat response: '' (selectedModel s) host response s"

section \<open>Concrete inputs\<close>

text \<open>A full store: one hundred keys \<open>k\<^sup>i\<close>, the entry of key \<open>k\<^sup>i\<close> created at time \<open>i\<close>.\<close>

definition fullCache :: completionCache where
  "fullCache = map (\<lambda>i. (replicate i CHR ''k'', \<lparr>result = ''r'', timestamp = int i\<rparr>)) [0..<100]"

text \<open>
  A telemetry service as constructed with telemetry enabled, and an event as a caller builds it:
  the session id on it is the one of the API client.
\<close>

definition freshTelemetry :: TelemetryService where
  "freshTelemetry = newTelemetryService ''session-1'' ''machine-1'' True ''1.90.0'' ''linux-6.1''"

definition someEvent :: TelemetryEvent where
  "someEvent = \<lparr>ev_type = COMMAND_EXECUTED, ev_timestamp = 0, ev_sessionId = ''api-session'',
                 ev_properties = [(''command'', PString ''m31.chat'')],
                 ev_measurements = [(''duration'', 12)]\<rparr>"

text \<open>The service after nineteen events have been tracked, each delivery succeeding.\<close>

definition nineteenTracked :: TelemetryService where
  "nineteenTracked = telemetryRun freshTelemetry (replicate 19 (CallTrackEvent False 7 someEvent))"

text \<open>A session in which telemetry is switched off and on again between tracked events.\<close>

definition someCalls :: "telemetryCall list" where
  "someCalls =
     [CallTrackEvent False 5 someEvent, CallFlush False, CallDisable,
      CallTrackEvent False 6 someEvent, CallEnable, CallTrackEvent False 9 someEvent]"

text \<open>The service with one event buffered and telemetry then disabled.\<close>

definition disabledWithOne :: TelemetryService where
  "disabledWithOne = telemetryRun freshTelemetry [CallTrackEvent False 5 someEvent, CallDisable]"

text \<open>
  A three-line JavaScript document with the cursor inside the second line, after \<^verbatim>\<open>cons\<close>; the
  default window of ten lines before and five lines after; a system as it is after start-up.
\<close>

definition someSettings :: Settings where
  "someSettings =
     \<lparr>autoCompleteEnabled = True, configuredModel = ''standard'', linesToContextBefore = 10,
      linesToContextAfter = 5, maxTokensSetting = 256, temperatureSetting = 0\<rparr>"

definition someDocument :: TextDocument where
  "someDocument =
     \<lparr>fileName = ''a.js'', languageId = ''javascript'',
      lines = [''const x = 1;'', ''console.'', ''done();'']\<rparr>"

definition someCursor :: Position where
  "someCursor = \<lparr>line = 1, character = 4\<rparr>"

definition someSystem :: System where
  "someSystem =
     \<lparr>settings = someSettings, telemetry = freshTelemetry, cache = [],
      apiSessionId = ''api-session'', apiRequests = [], activeSessions = [],
      selectedModel = ''standard'', serviceLog = []\<rparr>"

definition someHost :: Host where
  "someHost =
     \<lparr>now0 = 1000, now1 = 1250, newSessionId = ''code_completion-1000-x7f3k2a'',
      flushThrows = False\<rparr>"

definition networkError :: ApiErrorResponse where
  "networkError =
     \<lparr>err_status = 0, err_code = ''NETWORK_ERROR'',
      err_message = ''No response received from the server''\<rparr>"



section \<open>Properties of the map operations and of the cache\<close>

lemma mapSet_keys: "fst ` set (mapSet m k v) = insert k (fst ` set m)"
proof (induction m)
  case Nil
  show ?case by simp
next
  case (Cons p m)
  obtain k' v' where p: "p = (k', v')" by (cases p)
  show ?case
  proof (cases "k' = k")
    case True
    then show ?thesis by (simp add: p)
  next
    case False
    then show ?thesis by (simp add: p Cons.IH insert_commute)
  qed
qed

lemma mapSet_distinct: "distinct (map fst m) \<Longrightarrow> distinct (map fst (mapSet m k v))"
proof (induction m)
  case Nil
  then show ?case by simp
next
  case (Cons p m)
  obtain k' v' where p: "p = (k', v')" by (cases p)
  from Cons have "distinct (map fst (mapSet m k v))" by simp
  moreover have "fst ` set (mapSet m k v) = insert k (fst ` set m)" by (rule mapSet_keys)
  ultimately show ?case using Cons.prems p by auto
qed

lemma mapSet_length: "length (mapSet m k v) \<le> Suc (length m)"
  by (induction m) auto


lemma mapDelete_distinct: "distinct (map fst m) \<Longrightarrow> distinct (map fst (mapDelete m k))"
  by (simp add: mapDelete_def distinct_map_filter)

lemma mapDelete_length: "length (mapDelete m k) \<le> length m"
  by (simp add: mapDelete_def)

lemma mapDelete_get: "mapGet (mapDelete m k) k = None"
  by (induction m) (auto simp: mapGet_def mapDelete_def)

lemma foldl_mapDelete: "foldl mapDelete m ks = filter (\<lambda>kv. fst kv \<notin> set ks) m"
proof (induction ks arbitrary: m)
  case Nil
  then show ?case by simp
next
  case (Cons k ks)
  have "foldl mapDelete (mapDelete m k) ks = filter (\<lambda>kv. fst kv \<notin> set ks) (mapDelete m k)"
    by (rule Cons.IH)
  moreover have "filter (\<lambda>kv. fst kv \<notin> set ks) (mapDelete m k) = filter (\<lambda>kv. fst kv \<notin> set (k # ks)) m"
    by (simp add: mapDelete_def conj_commute)
  ultimately show ?case by (simp only: foldl_Cons)
qed

lemma mapGet_None: "k \<notin> fst ` set m \<Longrightarrow> mapGet m k = None"
  by (simp add: mapGet_def map_of_eq_None_iff)

text \<open>The eviction step on a store with distinct keys.\<close>

lemma evict_props:
  fixes s :: completionCache
  assumes d: "distinct (map fst s)" and len: "20 \<le> length s"
  defines "ev \<equiv> take 20 (sort_key (\<lambda>kv. timestamp (snd kv)) s)"
  defines "c' \<equiv> foldl mapDelete s (keysToDelete s)"
  shows "length ev = 20" "distinct ev" "set ev \<subseteq> set s" "set c' = set s - set ev"
    "length c' = length s - 20"
    "\<forall>e\<in>set ev. \<forall>e'\<in>set c'. timestamp (snd e) \<le> timestamp (snd e')"
    "distinct (map fst c')"
    "\<forall>e\<in>set ev. fst e \<notin> fst ` set c'"
proof -
  let ?f = "\<lambda>kv::string \<times> cacheEntry. timestamp (snd kv)"
  let ?srt = "sort_key ?f s"
  have ds: "distinct s" using d by (rule distinct_map [THEN iffD1, THEN conjunct1])
  have inj: "inj_on fst (set s)" using d by (simp add: distinct_map)
  show l: "length ev = 20" using len by (simp add: ev_def)
  show dev: "distinct ev" using ds by (simp add: ev_def)
  show sub: "set ev \<subseteq> set s"
  proof -
    have "set (take 20 ?srt) \<subseteq> set ?srt" by (rule set_take_subset)
    then show ?thesis by (simp add: ev_def)
  qed
  have c': "c' = filter (\<lambda>kv. fst kv \<notin> fst ` set ev) s"
    by (simp add: c'_def foldl_mapDelete keysToDelete_def ev_def)
  have mem: "kv \<in> set ev" if "kv \<in> set s" "fst kv \<in> fst ` set ev" for kv
  proof -
    from that(2) obtain e where e: "e \<in> set ev" "fst e = fst kv" by force
    with sub have "e \<in> set s" by blast
    with inj that(1) e(2) have "e = kv" by (auto dest: inj_onD)
    with e(1) show ?thesis by simp
  qed
  show setc: "set c' = set s - set ev" using mem by (auto simp: c')
  show "distinct (map fst c')" using d by (simp add: c' distinct_map_filter)
  have dc: "distinct c'" using ds by (simp add: c')
  have "card (set c') = card (set s) - card (set ev)"
    unfolding setc using sub by (simp add: card_Diff_subset)
  then show "length c' = length s - 20"
    using dc ds dev l by (simp add: distinct_card)
  have srt: "sorted (map ?f (take 20 ?srt @ drop 20 ?srt))" by simp
  have "set c' \<subseteq> set (drop 20 ?srt)"
  proof
    fix x assume "x \<in> set c'"
    then have "x \<in> set s" "x \<notin> set ev" using setc by auto
    then have "x \<in> set (take 20 ?srt @ drop 20 ?srt)" by simp
    with \<open>x \<notin> set ev\<close> show "x \<in> set (drop 20 ?srt)" unfolding ev_def set_append by blast
  qed
  moreover have "\<forall>x\<in>set (take 20 ?srt). \<forall>y\<in>set (drop 20 ?srt). ?f x \<le> ?f y"
    using srt unfolding map_append sorted_append by auto
  ultimately show "\<forall>e\<in>set ev. \<forall>e'\<in>set c'. timestamp (snd e) \<le> timestamp (snd e')"
    unfolding ev_def by blast
  show "\<forall>e\<in>set ev. fst e \<notin> fst ` set c'" by (force simp: c')
qed

lemma addToCache_inv:
  assumes "distinct (map fst c)" "length c \<le> 100"
  shows "distinct (map fst (addToCache c k r now)) \<and> length (addToCache c k r now) \<le> 100"
proof -
  let ?s = "mapSet c k \<lparr>result = r, timestamp = now\<rparr>"
  have d: "distinct (map fst ?s)" using assms(1) by (rule mapSet_distinct)
  have l: "length ?s \<le> 101" using mapSet_length [of c k "\<lparr>result = r, timestamp = now\<rparr>"] assms(2) by linarith
  show ?thesis
  proof (cases "mapSize ?s > 100")
    case True
    then have "20 \<le> length ?s" by (simp add: mapSize_def)
    from evict_props(5,7) [OF d this] l True show ?thesis
      by (simp add: addToCache_def Let_def mapSize_def)
  next
    case False
    then show ?thesis using d by (simp add: addToCache_def Let_def mapSize_def)
  qed
qed

lemma getFromCache_inv:
  assumes "distinct (map fst c)" "length c \<le> 100"
  shows "distinct (map fst (snd (getFromCache c k now))) \<and> length (snd (getFromCache c k now)) \<le> 100"
  using assms mapDelete_length [of c k] mapDelete_distinct [of c k]
  by (auto simp: getFromCache_def split: option.splits)

lemma cache_reachable_inv: "cache_reachable c \<Longrightarrow> distinct (map fst c) \<and> length c \<le> 100"
proof (induction rule: cache_reachable.induct)
  case cache_init
  show ?case by simp
next
  case (cache_put c key res now)
  then show ?case using addToCache_inv by blast
next
  case (cache_get c key now)
  then show ?case using getFromCache_inv by blast
qed


lemma mapSet_fresh: "k \<notin> fst ` set m \<Longrightarrow> mapSet m k v = m @ [(k, v)]"
  by (induction m) auto

lemma cache_reachable_iff: "cache_reachable c \<longleftrightarrow> distinct (map fst c) \<and> length c \<le> 100"
proof
  assume "cache_reachable c"
  then show "distinct (map fst c) \<and> length c \<le> 100" by (rule cache_reachable_inv)
next
  assume "distinct (map fst c) \<and> length c \<le> 100"
  then show "cache_reachable c"
  proof (induction c rule: rev_induct)
    case Nil
    show ?case by (rule cache_init)
  next
    case (snoc p c)
    obtain k e where p: "p = (k, e)" by (cases p)
    from snoc.prems have fresh: "k \<notin> fst ` set c" and len: "Suc (length c) \<le> 100"
      and "distinct (map fst c) \<and> length c \<le> 100"
      by (auto simp: p)
    then have r: "cache_reachable c" using snoc.IH by blast
    have e: "\<lparr>result = result e, timestamp = timestamp e\<rparr> = e" by simp
    have "addToCache c k (result e) (timestamp e) = c @ [(k, e)]"
      using len by (simp add: addToCache_def mapSet_fresh [OF fresh] mapSize_def e)
    with cache_put [OF r, of k "result e" "timestamp e"] show ?case by (simp add: p)
  qed
qed

lemma fullCache_reachable: "cache_reachable fullCache"
proof -
  have "inj_on (\<lambda>i. replicate i CHR ''k'') (set [0..<100])"
    by (rule inj_onI) (auto dest: arg_cong [where f = length])
  then have "distinct (map fst fullCache)"
    by (simp add: fullCache_def distinct_map comp_def)
  moreover have "length fullCache \<le> 100" by (simp add: fullCache_def)
  ultimately show ?thesis by (simp add: cache_reachable_iff)
qed

lemma fullCache_put_new:
  "mapSet fullCache ''new'' v = fullCache @ [(''new'', v)]"
proof (rule mapSet_fresh)
  show "''new'' \<notin> fst ` set fullCache"
    by (auto simp: fullCache_def Cons_replicate_eq)
qed

text \<open>
  Claim C3. In every store the cache can be in, \<open>addToCache\<close> first sets the entry. If the store
  then holds more than 100 entries, there are 20 distinct entries of it, none newer than any
  entry that stays, such that the store after the call is the store without them; it holds 81
  entries, and \<open>getFromCache\<close> on the key of a removed entry returns nothing at any time and
  changes nothing. If the store does not hold more than 100 entries, nothing is removed.
\<close>

theorem addToCache_batch_eviction:
  assumes "cache_reachable c"
  shows "let s = mapSet c k \<lparr>result = r, timestamp = now\<rparr>; c' = addToCache c k r now in
         if mapSize s > 100 then
           (\<exists>ev. length ev = 20 \<and> distinct ev \<and> set ev \<subseteq> set s \<and>
                 c' = filter (\<lambda>e. e \<notin> set ev) s \<and> mapSize c' = 81 \<and>
                 (\<forall>e\<in>set ev. \<forall>e'\<in>set c'. timestamp (snd e) \<le> timestamp (snd e')) \<and>
                 (\<forall>e\<in>set ev. \<forall>t. getFromCache c' (fst e) t = (None, c')))
         else c' = s"
proof -
  define s where "s = mapSet c k \<lparr>result = r, timestamp = now\<rparr>"
  define c' where "c' = addToCache c k r now"
  from assms have inv: "distinct (map fst c)" "length c \<le> 100"
    using cache_reachable_inv by blast+
  have d: "distinct (map fst s)" unfolding s_def using inv(1) by (rule mapSet_distinct)
  have l: "length s \<le> 101"
    using mapSet_length [of c k "\<lparr>result = r, timestamp = now\<rparr>"] inv(2) unfolding s_def by linarith
  have "if mapSize s > 100 then
           (\<exists>ev. length ev = 20 \<and> distinct ev \<and> set ev \<subseteq> set s \<and>
                 c' = filter (\<lambda>e. e \<notin> set ev) s \<and> mapSize c' = 81 \<and>
                 (\<forall>e\<in>set ev. \<forall>e'\<in>set c'. timestamp (snd e) \<le> timestamp (snd e')) \<and>
                 (\<forall>e\<in>set ev. \<forall>t. getFromCache c' (fst e) t = (None, c')))
         else c' = s"
  proof (cases "mapSize s > 100")
    case False
    then show ?thesis by (simp add: c'_def addToCache_def s_def [symmetric])
  next
    case True
    then have len: "length s = 101" and ge: "20 \<le> length s" using l by (simp_all add: mapSize_def)
    let ?ev = "take 20 (sort_key (\<lambda>kv. timestamp (snd kv)) s)"
    have c'eq: "c' = foldl mapDelete s (keysToDelete s)"
      using True by (simp add: c'_def addToCache_def s_def [symmetric])
    note P = evict_props [OF d ge, folded c'eq]
    have "mapSize c' = 81" using P(5) len by (simp add: mapSize_def)
    moreover have "c' = filter (\<lambda>e. e \<notin> set ?ev) s"
    proof -
      have "filter (\<lambda>kv. fst kv \<notin> fst ` set ?ev) s = filter (\<lambda>e. e \<notin> set ?ev) s"
      proof (rule filter_cong [OF refl])
        fix x assume x: "x \<in> set s"
        show "(fst x \<notin> fst ` set ?ev) = (x \<notin> set ?ev)"
        proof
          assume "fst x \<notin> fst ` set ?ev" then show "x \<notin> set ?ev" by blast
        next
          assume n: "x \<notin> set ?ev"
          show "fst x \<notin> fst ` set ?ev"
          proof
            assume "fst x \<in> fst ` set ?ev"
            then obtain e where e: "e \<in> set ?ev" "fst e = fst x" by force
            with P(3) have "e \<in> set s" by blast
            with d x e(2) have "e = x" by (auto simp: distinct_map dest: inj_onD)
            with e(1) n show False by simp
          qed
        qed
      qed
      then show ?thesis by (simp add: c'eq foldl_mapDelete keysToDelete_def)
    qed
    moreover have "\<forall>e\<in>set ?ev. \<forall>t. getFromCache c' (fst e) t = (None, c')"
      using P(8) by (simp add: getFromCache_def mapGet_None)
    ultimately have "\<exists>ev. length ev = 20 \<and> distinct ev \<and> set ev \<subseteq> set s \<and>
                 c' = filter (\<lambda>e. e \<notin> set ev) s \<and> mapSize c' = 81 \<and>
                 (\<forall>e\<in>set ev. \<forall>e'\<in>set c'. timestamp (snd e) \<le> timestamp (snd e')) \<and>
                 (\<forall>e\<in>set ev. \<forall>t. getFromCache c' (fst e) t = (None, c'))"
      using P(1,2,3,6) by (intro exI [of _ ?ev]) simp
    with True show ?thesis by simp
  qed
  then show ?thesis unfolding s_def c'_def Let_def .
qed

theorem addToCache_batch_eviction_witness:
  "cache_reachable fullCache \<and>
   mapSize (mapSet fullCache ''new'' \<lparr>result = ''v'', timestamp = 500\<rparr>) > 100 \<and>
   mapSize (addToCache fullCache ''new'' ''v'' 500) = 81"
proof -
  have size: "mapSize (mapSet fullCache ''new'' \<lparr>result = ''v'', timestamp = 500\<rparr>) > 100"
    by (simp add: fullCache_put_new mapSize_def) (simp add: fullCache_def)
  from addToCache_batch_eviction [OF fullCache_reachable, of "''new''" "''v''" 500] size
  have "mapSize (addToCache fullCache ''new'' ''v'' 500) = 81"
    unfolding Let_def by (simp only: if_True) blast
  with size fullCache_reachable show ?thesis by simp
qed

text \<open>
  Claim C4. For a key stored with value \<open>result e\<close> and creation time \<open>timestamp e\<close>,
  \<open>getFromCache\<close> at time \<open>now\<close> returns the stored value exactly when
  \<open>now < timestamp e + 60000\<close>, and then leaves the store as it is; at or after that instant it
  returns nothing and the store it leaves no longer holds the key.
\<close>

theorem getFromCache_ttl:
  assumes "mapGet c k = Some e"
  shows "(fst (getFromCache c k now) = Some (result e) \<longleftrightarrow> now < timestamp e + 60000) \<and>
         (now < timestamp e + 60000 \<longrightarrow> getFromCache c k now = (Some (result e), c)) \<and>
         (timestamp e + 60000 \<le> now \<longrightarrow>
            getFromCache c k now = (None, mapDelete c k) \<and> mapGet (mapDelete c k) k = None)"
  using assms by (auto simp: getFromCache_def CACHE_TTL_MS_def mapDelete_get)

theorem getFromCache_ttl_witness:
  "mapGet [(''js:console.:'', \<lparr>result = ''log'', timestamp = 1000\<rparr>)] ''js:console.:''
     = Some \<lparr>result = ''log'', timestamp = 1000\<rparr> \<and>
   getFromCache [(''js:console.:'', \<lparr>result = ''log'', timestamp = 1000\<rparr>)] ''js:console.:'' 60999
     = (Some ''log'', [(''js:console.:'', \<lparr>result = ''log'', timestamp = 1000\<rparr>)]) \<and>
   getFromCache [(''js:console.:'', \<lparr>result = ''log'', timestamp = 1000\<rparr>)] ''js:console.:'' 61000
     = (None, [])"
proof -
  have stored: "mapGet [(''js:console.:'', \<lparr>result = ''log'', timestamp = 1000\<rparr>)] ''js:console.:''
     = Some \<lparr>result = ''log'', timestamp = 1000\<rparr>"
    by (simp add: mapGet_def)
  from getFromCache_ttl [OF stored, of 60999] getFromCache_ttl [OF stored, of 61000] stored
  show ?thesis by (simp add: mapDelete_def)
qed

section \<open>Properties of the telemetry service\<close>

lemma flush_skip: "\<not> isEnabled s \<or> pendingEvents s = [] \<Longrightarrow> flush throws s = s"
  by (auto simp: flush_def)

lemma flush_pending: "isEnabled s \<Longrightarrow> pendingEvents (flush throws s) = []"
  by (simp add: flush_def Let_def)

lemma flush_sessionId: "sessionId (flush throws s) = sessionId s"
  by (simp add: flush_def Let_def)

lemma flush_isEnabled: "isEnabled (flush throws s) = isEnabled s"
  by (simp add: flush_def Let_def)

lemma flush_pending_subset: "set (pendingEvents (flush throws s)) \<subseteq> set (pendingEvents s)"
  by (simp add: flush_def Let_def)

lemma flush_tracked: "trackedEvents (flush throws s) = trackedEvents s"
  by (simp add: flush_def Let_def trackedEvents_def)

lemma enrichEvent_sessionId: "ev_sessionId (enrichEvent s now event) = sessionId s"
  by (simp add: enrichEvent_def)

lemma trackEvent_disabled: "\<not> isEnabled s \<Longrightarrow> trackEvent throws now event s = s"
  by (simp add: trackEvent_def)

lemma trackEvent_sessionId: "sessionId (trackEvent throws now event s) = sessionId s"
  by (simp add: trackEvent_def Let_def flush_sessionId)

lemma trackEvent_pending_subset:
  "set (pendingEvents (trackEvent throws now event s))
     \<subseteq> insert (enrichEvent s now event) (set (pendingEvents s))"
proof (cases "isEnabled s")
  case False
  then show ?thesis by (auto simp: trackEvent_disabled)
next
  case True
  let ?s1 = "s\<lparr>telemetryLog := telemetryLog s @ [DebugTrackingEvent (enrichEvent s now event)],
               pendingEvents := pendingEvents s @ [enrichEvent s now event]\<rparr>"
  have "set (pendingEvents (flush throws ?s1)) \<subseteq> set (pendingEvents ?s1)"
    by (rule flush_pending_subset)
  then show ?thesis using True by (auto simp: trackEvent_def Let_def)
qed

lemma trackEvent_tracked:
  "trackedEvents (trackEvent throws now event s) =
     trackedEvents s @ (if isEnabled s then [enrichEvent s now event] else [])"
  by (simp add: trackEvent_def Let_def flush_tracked) (simp add: trackedEvents_def)

lemma trackEvent_short:
  "isEnabled s \<Longrightarrow> length (pendingEvents (trackEvent throws now event s)) < 20"
  by (simp add: trackEvent_def Let_def EVENTS_BATCH_SIZE_def flush_pending)

text \<open>The invariant of the session identifier, one call at a time.\<close>

lemma session_step:
  assumes "sessionId s = sid"
    and "\<forall>e\<in>set (pendingEvents s). ev_sessionId e = sid"
    and "\<forall>e\<in>set (trackedEvents s). ev_sessionId e = sid"
  shows "sessionId (telemetryStep s c) = sid"
    and "\<forall>e\<in>set (pendingEvents (telemetryStep s c)). ev_sessionId e = sid"
    and "\<forall>e\<in>set (trackedEvents (telemetryStep s c)). ev_sessionId e = sid"
proof -
  show "sessionId (telemetryStep s c) = sid"
    using assms(1)
    by (cases c)
      (simp_all add: trackEvent_sessionId flush_sessionId enable_def disable_def
        onDidChangeTelemetryConfiguration_def)
  show "\<forall>e\<in>set (pendingEvents (telemetryStep s c)). ev_sessionId e = sid"
  proof (cases c)
    case (CallTrackEvent throws now event)
    then show ?thesis
      using assms(1,2) trackEvent_pending_subset [of throws now event s]
      by (auto simp: enrichEvent_sessionId)
  next
    case (CallFlush throws)
    then show ?thesis using assms(2) flush_pending_subset [of throws s] by auto
  qed (use assms(2) in \<open>simp_all add: enable_def disable_def onDidChangeTelemetryConfiguration_def\<close>)
  show "\<forall>e\<in>set (trackedEvents (telemetryStep s c)). ev_sessionId e = sid"
  proof (cases c)
    case (CallTrackEvent throws now event)
    then show ?thesis
      using assms(1,3) by (auto simp: trackEvent_tracked enrichEvent_sessionId)
  next
    case (CallFlush throws)
    then show ?thesis using assms(3) by (simp add: flush_tracked)
  next
    case CallEnable
    have "trackedEvents (enable s) = trackedEvents s"
      by (simp add: trackedEvents_def enable_def)
    then show ?thesis using assms(3) by (simp add: CallEnable)
  next
    case CallDisable
    have "trackedEvents (disable s) = trackedEvents s"
      by (simp add: trackedEvents_def disable_def)
    then show ?thesis using assms(3) by (simp add: CallDisable)
  next
    case (CallConfigurationChanged configured)
    have "trackedEvents (onDidChangeTelemetryConfiguration configured s) = trackedEvents s"
      by (simp add: trackedEvents_def onDidChangeTelemetryConfiguration_def)
    then show ?thesis using assms(3) by (simp add: CallConfigurationChanged)
  qed
qed

lemma session_run:
  assumes "sessionId s = sid"
    and "\<forall>e\<in>set (pendingEvents s). ev_sessionId e = sid"
    and "\<forall>e\<in>set (trackedEvents s). ev_sessionId e = sid"
  shows "sessionId (telemetryRun s calls) = sid \<and>
         (\<forall>e\<in>set (pendingEvents (telemetryRun s calls)). ev_sessionId e = sid) \<and>
         (\<forall>e\<in>set (trackedEvents (telemetryRun s calls)). ev_sessionId e = sid)"
  using assms
proof (induction calls arbitrary: s)
  case Nil
  then show ?case by (simp add: telemetryRun_def)
next
  case (Cons c calls)
  have "telemetryRun s (c # calls) = telemetryRun (telemetryStep s c) calls"
    by (simp add: telemetryRun_def)
  moreover have "sessionId (telemetryRun (telemetryStep s c) calls) = sid \<and>
         (\<forall>e\<in>set (pendingEvents (telemetryRun (telemetryStep s c) calls)). ev_sessionId e = sid) \<and>
         (\<forall>e\<in>set (trackedEvents (telemetryRun (telemetryStep s c) calls)). ev_sessionId e = sid)"
    by (rule Cons.IH) (rule session_step [OF Cons.prems])+
  ultimately show ?case by simp
qed

lemma short_step:
  assumes "length (pendingEvents s) < 20" and "\<not> callThrows c"
  shows "length (pendingEvents (telemetryStep s c)) < 20"
proof (cases c)
  case (CallTrackEvent throws now event)
  then show ?thesis
    using assms(1) by (cases "isEnabled s") (simp_all add: trackEvent_short trackEvent_disabled)
next
  case (CallFlush throws)
  then show ?thesis
    using assms(1) flush_pending [of s throws] flush_skip [of s throws]
    by (cases "isEnabled s") simp_all
qed (use assms(1) in \<open>simp_all add: enable_def disable_def onDidChangeTelemetryConfiguration_def\<close>)

lemma short_run:
  assumes "length (pendingEvents s) < 20" and "\<forall>c\<in>set calls. \<not> callThrows c"
  shows "length (pendingEvents (telemetryRun s calls)) < 20"
  using assms
proof (induction calls arbitrary: s)
  case Nil
  then show ?case by (simp add: telemetryRun_def)
next
  case (Cons c calls)
  have "telemetryRun s (c # calls) = telemetryRun (telemetryStep s c) calls"
    by (simp add: telemetryRun_def)
  moreover have "length (pendingEvents (telemetryStep s c)) < 20"
    using Cons.prems by (simp add: short_step)
  ultimately show ?case using Cons.IH [of "telemetryStep s c"] Cons.prems(2) by simp
qed

lemma flush_run_disabled: "\<not> isEnabled s \<Longrightarrow> telemetryRun s (map CallFlush ts) = s"
  by (induction ts) (simp_all add: telemetryRun_def flush_skip)

lemma nineteenTracked_fields:
  "isEnabled nineteenTracked \<and> length (pendingEvents nineteenTracked) = 19"
  by code_simp



text \<open>
  Claim C7. With telemetry enabled, a call of \<open>trackEvent\<close> that brings the buffer to
  \<open>EVENTS_BATCH_SIZE = 20\<close> events (or more) runs \<open>flush\<close> within the call: when the delivery
  succeeds, the call leaves the buffer empty and the log extended by the tracked event and by the
  flush of the whole batch. So with telemetry enabled the buffer holds fewer than 20 events
  when \<open>trackEvent\<close> returns, and in every run of the service from its construction in which
  each delivery succeeds the buffer holds fewer than 20 events after every call.
\<close>

theorem trackEvent_flushes_at_batch_size:
  "EVENTS_BATCH_SIZE = 20 \<and>
   (isEnabled s \<and> EVENTS_BATCH_SIZE \<le> length (pendingEvents s) + 1 \<longrightarrow>
      trackEvent False now event s =
        s\<lparr>pendingEvents := [],
           telemetryLog := telemetryLog s @
             [DebugTrackingEvent (enrichEvent s now event),
              DebugFlushing (length (pendingEvents s) + 1)]\<rparr>) \<and>
   (isEnabled s \<longrightarrow> length (pendingEvents (trackEvent False now event s)) < 20) \<and>
   ((\<forall>c\<in>set calls. \<not> callThrows c) \<longrightarrow>
      length (pendingEvents (telemetryRun (newTelemetryService uuid1 uuid2 enabled v os) calls)) < 20)"
proof (intro conjI impI)
  show "EVENTS_BATCH_SIZE = 20" by (simp add: EVENTS_BATCH_SIZE_def)
next
  assume "isEnabled s \<and> EVENTS_BATCH_SIZE \<le> length (pendingEvents s) + 1"
  then show "trackEvent False now event s =
        s\<lparr>pendingEvents := [],
           telemetryLog := telemetryLog s @
             [DebugTrackingEvent (enrichEvent s now event),
              DebugFlushing (length (pendingEvents s) + 1)]\<rparr>"
    by (simp add: trackEvent_def flush_def Let_def)
next
  assume "isEnabled s"
  then show "length (pendingEvents (trackEvent False now event s)) < 20"
    by (rule trackEvent_short)
next
  assume "\<forall>c\<in>set calls. \<not> callThrows c"
  moreover have "length (pendingEvents (newTelemetryService uuid1 uuid2 enabled v os)) < 20"
    by (simp add: newTelemetryService_def)
  ultimately show
    "length (pendingEvents (telemetryRun (newTelemetryService uuid1 uuid2 enabled v os) calls)) < 20"
    by (simp add: short_run)
qed

theorem trackEvent_flushes_at_batch_size_witness:
  "isEnabled nineteenTracked \<and> length (pendingEvents nineteenTracked) = 19 \<and>
   pendingEvents (trackEvent False 8 someEvent nineteenTracked) = [] \<and>
   last (telemetryLog (trackEvent False 8 someEvent nineteenTracked)) = DebugFlushing 20 \<and>
   length (pendingEvents (telemetryRun freshTelemetry (replicate 19 (CallTrackEvent False 7 someEvent)))) < 20"
proof -
  have calls: "\<forall>c\<in>set (replicate 19 (CallTrackEvent False 7 someEvent)). \<not> callThrows c"
    by simp
  from trackEvent_flushes_at_batch_size
         [of nineteenTracked 8 someEvent "replicate 19 (CallTrackEvent False 7 someEvent)"
            "''session-1''" "''machine-1''" True "''1.90.0''" "''linux-6.1''"]
  show ?thesis
    using nineteenTracked_fields calls
    by (simp add: freshTelemetry_def [symmetric] EVENTS_BATCH_SIZE_def)
qed

text \<open>
  Claim C8. The event that \<open>trackEvent\<close> appends carries the session identifier of the
  service, whatever identifier the caller put on the event. In every run of the service from
  its construction with identifier \<open>sid\<close>, the identifier of the service stays \<open>sid\<close>, and every
  event in the buffer and every event ever appended carries \<open>sid\<close>.
\<close>

theorem trackEvent_injects_sessionId:
  "(isEnabled s \<longrightarrow>
      trackedEvents (trackEvent throws now event s) = trackedEvents s @ [enrichEvent s now event] \<and>
      ev_sessionId (enrichEvent s now event) = sessionId s) \<and>
   sessionId (telemetryRun (newTelemetryService sid mid enabled v os) calls) = sid \<and>
   (\<forall>e\<in>set (pendingEvents (telemetryRun (newTelemetryService sid mid enabled v os) calls)).
      ev_sessionId e = sid) \<and>
   (\<forall>e\<in>set (trackedEvents (telemetryRun (newTelemetryService sid mid enabled v os) calls)).
      ev_sessionId e = sid)"
proof -
  have "sessionId (newTelemetryService sid mid enabled v os) = sid"
    and "\<forall>e\<in>set (pendingEvents (newTelemetryService sid mid enabled v os)). ev_sessionId e = sid"
    and "\<forall>e\<in>set (trackedEvents (newTelemetryService sid mid enabled v os)). ev_sessionId e = sid"
    by (simp_all add: newTelemetryService_def trackedEvents_def)
  from session_run [OF this, of calls] show ?thesis
    by (simp add: trackEvent_tracked enrichEvent_sessionId)
qed

theorem trackEvent_injects_sessionId_witness:
  "ev_sessionId someEvent = ''api-session'' \<and>
   sessionId (telemetryRun freshTelemetry someCalls) = ''session-1'' \<and>
   map ev_sessionId (pendingEvents (telemetryRun freshTelemetry someCalls)) = [''session-1''] \<and>
   map ev_sessionId (trackedEvents (telemetryRun freshTelemetry someCalls))
     = [''session-1'', ''session-1'']"
proof -
  have caller: "ev_sessionId someEvent = ''api-session''"
    by (simp add: someEvent_def)
  have sizes: "length (pendingEvents (telemetryRun freshTelemetry someCalls)) = 1"
    "length (trackedEvents (telemetryRun freshTelemetry someCalls)) = 2"
    by code_simp+
  have const: "map f xs = replicate (length xs) c" if "\<forall>e\<in>set xs. f e = c"
    for f :: "TelemetryEvent \<Rightarrow> string" and xs c
    using that by (induction xs) simp_all
  from trackEvent_injects_sessionId
         [of freshTelemetry False 5 someEvent "''session-1''" "''machine-1''" True "''1.90.0''"
            "''linux-6.1''" someCalls]
  have inv: "sessionId (telemetryRun freshTelemetry someCalls) = ''session-1''"
    "\<forall>e\<in>set (pendingEvents (telemetryRun freshTelemetry someCalls)). ev_sessionId e = ''session-1''"
    "\<forall>e\<in>set (trackedEvents (telemetryRun freshTelemetry someCalls)). ev_sessionId e = ''session-1''"
    unfolding freshTelemetry_def [symmetric] by blast+
  show ?thesis
    using caller inv(1) const [OF inv(2)] const [OF inv(3)] sizes
    by (simp add: eval_nat_numeral)
qed

text \<open>
  Claim C10. With telemetry disabled, or with an empty buffer, \<open>flush\<close> returns the service as
  it was: nothing is delivered or logged and the buffer is unchanged. After \<open>disable\<close>, any
  number of flushes leaves the service, and with it the events buffered before, as they were.
\<close>

theorem flush_disabled_or_empty_unchanged:
  "(\<not> isEnabled s \<or> pendingEvents s = [] \<longrightarrow> flush throws s = s) \<and>
   (\<not> isEnabled s \<longrightarrow> telemetryRun s (map CallFlush ts) = s) \<and>
   telemetryRun (disable s) (map CallFlush ts) = disable s \<and>
   pendingEvents (disable s) = pendingEvents s"
proof -
  have "\<not> isEnabled (disable s)" by (simp add: disable_def)
  then have "telemetryRun (disable s) (map CallFlush ts) = disable s"
    by (rule flush_run_disabled)
  then show ?thesis by (simp add: flush_skip flush_run_disabled) (simp add: disable_def)
qed

theorem flush_disabled_or_empty_unchanged_witness:
  "\<not> isEnabled disabledWithOne \<and>
   pendingEvents disabledWithOne = [enrichEvent freshTelemetry 5 someEvent] \<and>
   flush False disabledWithOne = disabledWithOne \<and>
   telemetryRun disabledWithOne (map CallFlush [False, True, False]) = disabledWithOne \<and>
   flush True freshTelemetry = freshTelemetry"
proof -
  have d: "\<not> isEnabled disabledWithOne"
    "pendingEvents disabledWithOne = [enrichEvent freshTelemetry 5 someEvent]"
    "pendingEvents freshTelemetry = []"
    by code_simp+
  from flush_disabled_or_empty_unchanged [of disabledWithOne False "[False, True, False]"]
       flush_disabled_or_empty_unchanged [of freshTelemetry True "[]"] d
  show ?thesis by simp
qed

section \<open>Properties of the completion request\<close>

lemma appendLines_in_range:
  "\<forall>i\<in>set idx. i < length (lines doc) \<Longrightarrow>
   appendLines doc idx acc = Inr (acc @ concat (map (\<lambda>i. lines doc ! i @ newline) idx))"
  by (induction idx arbitrary: acc) (simp_all add: lineAt_def)

lemma appendLinesAfter_in_range:
  "\<forall>i\<in>set idx. i < length (lines doc) \<Longrightarrow>
   appendLinesAfter doc position idx acc =
     Inr (acc @ concat (map (\<lambda>i. (if i = line position
                                      then drop (character position) (lines doc ! i)
                                      else lines doc ! i) @ newline) idx))"
  by (induction idx arbitrary: acc) (simp_all add: lineAt_def)

lemma contextAfterOf_in_range:
  "contextAfterOf cfg doc position =
     Inr (concat (map (\<lambda>i. (if i = line position
                               then drop (character position) (lines doc ! i)
                               else lines doc ! i) @ newline)
                  [line position ..< nat (endLineOf cfg doc position + 1)]))"
proof -
  have "\<forall>i\<in>set [line position ..< nat (endLineOf cfg doc position + 1)]. i < length (lines doc)"
    by (auto simp: endLineOf_def)
  then show ?thesis
    unfolding contextAfterOf_def by (simp add: appendLinesAfter_in_range)
qed

lemma buildCompletionRequest_in_range:
  assumes "line position < length (lines doc)"
  shows "buildCompletionRequest cfg doc position linePrefix context =
           Inr \<lparr>prompt =
                   (case context of
                      None \<Rightarrow> []
                    | Some c \<Rightarrow> if c = [] then [] else c @ newline @ newline) @
                   concat (map (\<lambda>i. lines doc ! i @ newline)
                             [startLineOf cfg position ..< line position]) @
                   linePrefix,
                 model = configuredModel cfg,
                 maxTokens = maxTokensSetting cfg,
                 temperature = temperatureSetting cfg,
                 stop = [newline @ newline, ''```'']\<rparr>"
proof -
  have "\<forall>i\<in>set [startLineOf cfg position ..< line position]. i < length (lines doc)"
    using assms by auto
  then have "appendLines doc [startLineOf cfg position ..< line position] [] =
               Inr (concat (map (\<lambda>i. lines doc ! i @ newline)
                              [startLineOf cfg position ..< line position]))"
    by (simp add: appendLines_in_range)
  then show ?thesis
    by (simp add: buildCompletionRequest_def contextAfterOf_in_range Let_def split: option.split)
qed

text \<open>
  Claim C5, evaluated on the code. For a cursor on a line of the document, the prompt of the
  request is the optional header, the lines from \<open>max 0 (line - linesToContextBefore)\<close> up to the
  line before the cursor, each followed by a line feed, and the prefix of the current line. The
  text after the cursor, which the loop over \<open>line .. min lastLine (line + linesToContextAfter)\<close>
  collects in \<^verbatim>\<open>contextAfter\<close>, is not part of the prompt.
\<close>

theorem buildCompletionRequest_prompt:
  assumes "line position < length (lines doc)"
  shows "buildCompletionRequest cfg doc position linePrefix context =
           Inr \<lparr>prompt =
                   (case context of
                      None \<Rightarrow> []
                    | Some c \<Rightarrow> if c = [] then [] else c @ newline @ newline) @
                   concat (map (\<lambda>i. lines doc ! i @ newline)
                             [startLineOf cfg position ..< line position]) @
                   linePrefix,
                 model = configuredModel cfg,
                 maxTokens = maxTokensSetting cfg,
                 temperature = temperatureSetting cfg,
                 stop = [newline @ newline, ''```'']\<rparr> \<and>
         contextAfterOf cfg doc position =
           Inr (concat (map (\<lambda>i. (if i = line position
                                     then drop (character position) (lines doc ! i)
                                     else lines doc ! i) @ newline)
                        [line position ..< nat (endLineOf cfg doc position + 1)]))"
  using assms by (simp add: buildCompletionRequest_in_range contextAfterOf_in_range)

theorem buildCompletionRequest_prompt_witness:
  "line someCursor < length (lines someDocument) \<and>
   buildCompletionRequest someSettings someDocument someCursor ''cons'' None =
     Inr \<lparr>prompt = ''const x = 1;'' @ newline @ ''cons'', model = ''standard'', maxTokens = 256,
           temperature = 0, stop = [newline @ newline, ''```'']\<rparr> \<and>
   contextAfterOf someSettings someDocument someCursor =
     Inr (''ole.'' @ newline @ ''done();'' @ newline)"
proof -
  have valid: "line someCursor < length (lines someDocument)"
    by (simp add: someCursor_def someDocument_def)
  have start: "[startLineOf someSettings someCursor ..< line someCursor] = [0]"
    by (simp add: startLineOf_def someSettings_def someCursor_def)
  have after: "contextAfterOf someSettings someDocument someCursor =
                 Inr (''ole.'' @ newline @ ''done();'' @ newline)"
    by code_simp
  from buildCompletionRequest_prompt [OF valid, of someSettings "''cons''" None] start after valid
  show ?thesis by (simp add: someSettings_def someDocument_def)
qed

section \<open>Properties of the completion service and the agent service\<close>



text \<open>
  Claim C1, evaluated on the code. Completions are enabled, the cursor is on a line of the
  document, the prefix is not blank, the cache holds nothing under the key, and the awaited
  call of the API client comes back unsuccessful or throws. Then \<open>getCompletion\<close> returns
  nothing, and the state it leaves differs from the one it found in the request issued and in one
  line of the error log: the telemetry service is as it was, no event has been tracked.
\<close>

theorem getCompletion_failure_tracks_nothing:
  assumes "autoCompleteEnabled (settings s)"
    and "line position < length (lines doc)"
    and "trim (take (character position) (lines doc ! line position)) \<noteq> []"
    and "mapGet (cache s)
           (getCacheKey (languageId doc) (take (character position) (lines doc ! line position))
              (case context of None \<Rightarrow> [] | Some c \<Rightarrow> c)) = None"
    and "response = ApiFailure err \<or> response = ApiThrows e"
  shows "\<exists>request logged.
           getCompletion host response doc position context s =
             (Inr None,
              s\<lparr>apiRequests := apiRequests s @ [CompletionCall request],
                serviceLog := serviceLog s @ [logged]\<rparr>) \<and>
           telemetry (snd (getCompletion host response doc position context s)) = telemetry s"
proof -
  let ?prefix = "take (character position) (lines doc ! line position)"
  obtain request where req:
    "buildCompletionRequest (settings s) doc position ?prefix context = Inr request"
    using buildCompletionRequest_in_range [OF assms(2)] by blast
  have same: "s\<lparr>cache := cache s\<rparr> = s" by simp
  from assms(5) show ?thesis
  proof
    assume "response = ApiFailure err"
    then have "getCompletion host response doc position context s =
             (Inr None,
              s\<lparr>apiRequests := apiRequests s @ [CompletionCall request],
                serviceLog := serviceLog s @ [ErrorGettingCompletion (err_message err)]\<rparr>)"
      using assms(1-4) req
      by (simp add: getCompletion_def getCompletionTry_def tryCatch_def lineAt_def Let_def
          getFromCache_def getCompletionMiss_def)
    then show ?thesis by (intro exI [of _ request] exI [of _ "ErrorGettingCompletion (err_message err)"]) simp
  next
    assume "response = ApiThrows e"
    then have "getCompletion host response doc position context s =
             (Inr None,
              s\<lparr>apiRequests := apiRequests s @ [CompletionCall request],
                serviceLog := serviceLog s @ [ErrorUnexpectedInCompletion e]\<rparr>)"
      using assms(1-4) req
      by (simp add: getCompletion_def getCompletionTry_def tryCatch_def lineAt_def Let_def
          getFromCache_def getCompletionMiss_def)
    then show ?thesis by (intro exI [of _ request] exI [of _ "ErrorUnexpectedInCompletion e"]) simp
  qed
qed

theorem getCompletion_failure_tracks_nothing_witness:
  "isEnabled (telemetry someSystem) \<and>
   fst (getCompletion someHost (ApiFailure networkError) someDocument someCursor None someSystem)
     = Inr None \<and>
   length (apiRequests (snd (getCompletion someHost (ApiFailure networkError) someDocument
                               someCursor None someSystem))) = 1 \<and>
   telemetry (snd (getCompletion someHost (ApiFailure networkError) someDocument someCursor None
                     someSystem)) = telemetry someSystem \<and>
   pendingEvents (telemetry someSystem) = [] \<and>
   map (\<lambda>e. (ev_type e, mapGet (ev_properties e) ''success''))
     (pendingEvents (telemetry (snd (getCodeCompletion someHost (ApiFailure networkError)
                                       someDocument someCursor None someSystem))))
     = [(FEATURE_USED, Some (PBool True))]"
proof -
  have wrapped: "map (\<lambda>e. (ev_type e, mapGet (ev_properties e) ''success''))
     (pendingEvents (telemetry (snd (getCodeCompletion someHost (ApiFailure networkError)
                                       someDocument someCursor None someSystem))))
     = [(FEATURE_USED, Some (PBool True))]"
    by code_simp
  have a1: "autoCompleteEnabled (settings someSystem)"
    by (simp add: someSystem_def someSettings_def)
  have a2: "line someCursor < length (lines someDocument)"
    by (simp add: someCursor_def someDocument_def)
  have a3: "trim (take (character someCursor) (lines someDocument ! line someCursor)) \<noteq> []"
    by code_simp
  have a4: "mapGet (cache someSystem)
           (getCacheKey (languageId someDocument)
              (take (character someCursor) (lines someDocument ! line someCursor))
              (case None of None \<Rightarrow> [] | Some c \<Rightarrow> c)) = None"
    by (simp add: someSystem_def mapGet_def)
  have a5: "ApiFailure networkError = ApiFailure networkError \<or>
            (ApiFailure networkError :: CompletionResponse apiOutcome) = ApiThrows (Error [])"
    by simp
  have t: "isEnabled (telemetry someSystem)" "pendingEvents (telemetry someSystem) = []"
    "apiRequests someSystem = []"
    by (simp_all add: someSystem_def freshTelemetry_def newTelemetryService_def)
  from getCompletion_failure_tracks_nothing [OF a1 a2 a3 a4 a5, of someHost] t wrapped
  show ?thesis by auto
qed




lemma oneShotOperation_result:
  "fst (oneShotOperation cap failurePrefix requestModel host response s) =
     (case response of
        ApiSuccess v \<Rightarrow> Inr (Success v)
      | ApiFailure err \<Rightarrow> Inr (Failure (Error (failurePrefix @ err_message err)))
      | ApiThrows e \<Rightarrow> Inr (Failure e))"
  by (simp add: oneShotOperation_def tryCatch_def Let_def split: apiOutcome.split)

text \<open>
  Claim C9. Each of the five one-shot operations returns a result value and never a thrown
  exception: \<open>Success\<close> with the value produced when the call of the API client succeeds,
  \<open>Failure\<close> with an error carrying the message of the API when the call comes back
  unsuccessful, and \<open>Failure\<close> with the exception when one is raised.
\<close>

theorem oneShot_returns_result:
  "\<forall>f\<in>set [generateCode modelId, explainCode modelId, generateCommitMessage modelId,
             addLogging modelId, chat].
     (\<exists>r. fst (f host response s) = Inr r) \<and>
     (case response of
        ApiSuccess v \<Rightarrow> fst (f host response s) = Inr (Success v)
      | ApiFailure err \<Rightarrow>
          (\<exists>failurePrefix. fst (f host response s)
                             = Inr (Failure (Error (failurePrefix @ err_message err))))
      | ApiThrows e \<Rightarrow> fst (f host response s) = Inr (Failure e))"
  by (cases response)
    (simp_all add: generateCode_def explainCode_def generateCommitMessage_def addLogging_def
      chat_def oneShotOperation_result)

theorem oneShot_returns_result_witness:
  "fst (generateCode None someHost (ApiFailure networkError) someSystem)
     = Inr (Failure (Error ''Failed to generate code: No response received from the server'')) \<and>
   fst (chat someHost (ApiThrows (Error ''socket closed'')) someSystem)
     = Inr (Failure (Error ''socket closed'')) \<and>
   fst (explainCode (Some ''expert'') someHost (ApiSuccess ''adds two numbers'') someSystem)
     = Inr (Success ''adds two numbers'')"
proof -
  have msg: "fst (generateCode None someHost (ApiFailure networkError) someSystem)
     = Inr (Failure (Error ''Failed to generate code: No response received from the server''))"
    by (simp add: generateCode_def oneShotOperation_result networkError_def)
  have "chat \<in> set [generateCode None, explainCode None, generateCommitMessage None,
                    addLogging None, chat]"
    by simp
  with oneShot_returns_result [of None someHost "ApiThrows (Error ''socket closed'')" someSystem]
  have thrown: "fst (chat someHost (ApiThrows (Error ''socket closed'')) someSystem)
     = Inr (Failure (Error ''socket closed''))"
    by simp
  have "explainCode (Some ''expert'')
          \<in> set [generateCode (Some ''expert''), explainCode (Some ''expert''),
                 generateCommitMessage (Some ''expert''), addLogging (Some ''expert''), chat]"
    by simp
  with oneShot_returns_result [of "Some ''expert''" someHost "ApiSuccess ''adds two numbers''" someSystem]
  have ok: "fst (explainCode (Some ''expert'') someHost (ApiSuccess ''adds two numbers'') someSystem)
     = Inr (Success ''adds two numbers'')"
    by simp
  from msg thrown ok show ?thesis by simp
qed

end
